theory Spec2Isabelle
  imports Main
begin

section \<open>The authenticated request client of TalentSyncAI\<close>

text \<open>
  The development embeds the frontend's \<^verbatim>\<open>services/api.js\<close> (token store, the two
  axios interceptors, the bare auth calls) and \<^verbatim>\<open>context/AuthContext.jsx\<close>
  (bootstrap effect, login, signup, logout).

  JavaScript runs these on one event loop: a handler runs without interruption up to
  its next \<^verbatim>\<open>await\<close>, and the code after the \<^verbatim>\<open>await\<close> runs when the awaited
  network reply is delivered. Each such segment is one function on the application
  state below; the event loop is the function \<open>step\<close>, which delivers one event and
  runs the segment it resumes.
\<close>

subsection \<open>Data\<close>

text \<open>
  An axios request config, reduced to the fields the client reads or writes:
  \<^verbatim>\<open>url\<close>, \<^verbatim>\<open>headers.Authorization\<close>, the private flag \<^verbatim>\<open>_retry\<close>, and \<^verbatim>\<open>data\<close>.
\<close>

record config =
  url :: string
  authorization :: "string option"
  retry :: bool
  data :: string

text \<open>
  The error object an axios promise rejects with: \<^verbatim>\<open>error.config\<close> and
  \<^verbatim>\<open>error.response?.status\<close> (\<open>None\<close> when there is no response, as after a
  network error).
\<close>

record failure =
  cfg :: config
  status :: "nat option"

text \<open>
  The two HTTP clients of \<^verbatim>\<open>api.js\<close>: \<open>Api\<close> is the instance made by
  \<^verbatim>\<open>axios.create\<close>, the only one the interceptors are registered on; \<open>Bare\<close> is the
  global \<^verbatim>\<open>axios\<close>.
\<close>

datatype client = Api | Bare

text \<open>Where a request stands. The index of a request in \<open>reqs\<close> is its identity.\<close>

datatype phase =
    InFlight config
  | Refreshing failure
  | Authenticating config
  | Resolved string
  | Rejected failure

text \<open>
  What awaits the request's promise: a page component (\<open>Caller\<close>, not modelled further),
  \<^verbatim>\<open>logout\<close> after its \<^verbatim>\<open>await authAPI.logout()\<close>, the \<^verbatim>\<open>then/catch/finally\<close>
  chain on \<^verbatim>\<open>authAPI.me()\<close> of the bootstrap effect. A request in phase
  \<open>Authenticating\<close> is the bare post of \<^verbatim>\<open>login\<close> or \<^verbatim>\<open>signup\<close>, whose own
  continuation runs on the reply.
\<close>

datatype cont = Caller | LogoutK | MeK

text \<open>The only handler ever registered with \<^verbatim>\<open>setLogoutHandler\<close>: \<^verbatim>\<open>() => setUser(null)\<close>.\<close>

datatype handler = SetUserNull

text \<open>
  The application state: the module variables of \<^verbatim>\<open>api.js\<close> (\<open>accessToken\<close>,
  \<open>refreshToken\<close>, \<open>onLogout\<close>), the two \<^verbatim>\<open>localStorage\<close> keys, the React state of
  \<^verbatim>\<open>AuthProvider\<close> (\<open>user\<close>, \<open>loading\<close>), the two OAuth parameters of
  \<^verbatim>\<open>window.location.search\<close>, and the requests issued so far. Three fields are
  instrumentation and are never read by the model of the code: \<open>sent\<close> lists the
  requests handed to the network (request identity, client, config as sent),
  \<open>hook_calls\<close> counts invocations of the logout handler and \<open>clear_calls\<close> counts
  executions of \<^verbatim>\<open>clearTokens\<close>.
\<close>

record app =
  accessToken :: string
  refreshToken :: string
  ja_access :: "string option"
  ja_refresh :: "string option"
  onLogout :: "handler option"
  user :: "string option"
  loading :: bool
  search :: "string option \<times> string option"
  reqs :: "(phase \<times> cont) list"
  sent :: "(nat \<times> client \<times> config) list"
  hook_calls :: nat
  clear_calls :: nat

subsection \<open>Token management (\<^verbatim>\<open>api.js\<close>)\<close>

text \<open>
  Module initialisation: \<^verbatim>\<open>localStorage.getItem(k) || ''\<close> for both keys,
  \<^verbatim>\<open>onLogout = null\<close>; \<^verbatim>\<open>useState(null)\<close> and \<^verbatim>\<open>useState(true)\<close> in the provider.
\<close>

definition or_empty :: "string option \<Rightarrow> string" where
  "or_empty v = (case v of None \<Rightarrow> [] | Some s \<Rightarrow> s)"

definition load :: "string option \<Rightarrow> string option \<Rightarrow> string option \<times> string option \<Rightarrow> app" where
  "load a r q =
     \<lparr>accessToken = or_empty a, refreshToken = or_empty r, ja_access = a, ja_refresh = r,
      onLogout = None, user = None, loading = True, search = q, reqs = [], sent = [],
      hook_calls = 0, clear_calls = 0\<rparr>"

definition setLogoutHandler :: "handler \<Rightarrow> app \<Rightarrow> app" where
  "setLogoutHandler fn st = st\<lparr>onLogout := Some fn\<rparr>"

definition setTokens :: "string \<Rightarrow> string \<Rightarrow> app \<Rightarrow> app" where
  "setTokens access refresh st =
     st\<lparr>accessToken := access, refreshToken := refresh,
        ja_access := Some access, ja_refresh := Some refresh\<rparr>"

definition getTokens :: "app \<Rightarrow> string \<times> string" where
  "getTokens st = (accessToken st, refreshToken st)"

definition clearTokens :: "app \<Rightarrow> app" where
  "clearTokens st =
     st\<lparr>accessToken := [], refreshToken := [], ja_access := None, ja_refresh := None,
        clear_calls := Suc (clear_calls st)\<rparr>"

definition hasTokens :: "app \<Rightarrow> bool" where
  "hasTokens st = (accessToken st \<noteq> [])"

definition bearer :: "string \<Rightarrow> string" where
  "bearer t = ''Bearer '' @ t"

subsection \<open>The interceptors (\<^verbatim>\<open>api.js\<close>)\<close>

text \<open>
  Request interceptor: \<^verbatim>\<open>if (accessToken) config.headers.Authorization = ...\<close>.
\<close>

definition request_use :: "config \<Rightarrow> app \<Rightarrow> config" where
  "request_use c st =
     (if accessToken st \<noteq> [] then c\<lparr>authorization := Some (bearer (accessToken st))\<rparr> else c)"

text \<open>
  The response interceptor's error handler is an \<^verbatim>\<open>async\<close> function with one
  \<^verbatim>\<open>await\<close>. Its first segment either falls through to \<^verbatim>\<open>Promise.reject(error)\<close>
  or sets \<^verbatim>\<open>_retry\<close> on the shared config object and posts the refresh through the
  bare client.
\<close>

datatype outcome =
    Reject failure
  | PostRefresh failure config
  | Resend config

text \<open>
  The config axios builds for \<^verbatim>\<open>client.get(url)\<close> or \<^verbatim>\<open>client.post(url, data)\<close>:
  no caller in the repository passes an Authorization header or \<^verbatim>\<open>_retry\<close>.
\<close>

definition fresh :: "string \<Rightarrow> string \<Rightarrow> config" where
  "fresh u d = \<lparr>url = u, authorization = None, retry = False, data = d\<rparr>"

definition response_rejected :: "failure \<Rightarrow> app \<Rightarrow> outcome \<times> app" where
  "response_rejected e st =
     (if status e = Some 401 \<and> \<not> retry (cfg e) \<and> refreshToken st \<noteq> [] then
        (PostRefresh (e\<lparr>cfg := (cfg e)\<lparr>retry := True\<rparr>\<rparr>)
                     (fresh ''/auth/refresh'' (refreshToken st)), st)
      else (Reject e, st))"

text \<open>
  The segment after a successful refresh: \<^verbatim>\<open>setTokens\<close>, overwrite the header of the
  original config, \<^verbatim>\<open>return api(original)\<close>; the resent request passes the request
  interceptor again.
\<close>

definition refresh_fulfilled :: "string \<Rightarrow> string \<Rightarrow> failure \<Rightarrow> app \<Rightarrow> outcome \<times> app" where
  "refresh_fulfilled access refresh e st =
     (let st' = setTokens access refresh st;
          original = (cfg e)\<lparr>authorization := Some (bearer access)\<rparr>
      in (Resend (request_use original st'), st'))"

text \<open>
  The \<^verbatim>\<open>catch\<close> block, which binds no error, followed by the fall-through
  \<^verbatim>\<open>return Promise.reject(error)\<close>.
\<close>

definition invoke_onLogout :: "app \<Rightarrow> app" where
  "invoke_onLogout st =
     (case onLogout st of
        None \<Rightarrow> st
      | Some SetUserNull \<Rightarrow> st\<lparr>user := None, hook_calls := Suc (hook_calls st)\<rparr>)"

definition refresh_rejected :: "failure \<Rightarrow> app \<Rightarrow> outcome \<times> app" where
  "refresh_rejected e st = (Reject e, invoke_onLogout (clearTokens st))"

subsection \<open>Sending and settling requests\<close>

text \<open>
  A call on the \<open>Api\<close> instance runs the request interceptor and hands the config to
  the network; a call on the bare client hands it over as built. The promise chain
  axios builds for a call runs as microtasks, so the interceptor and the dispatch
  happen in the same turn of the loop as the call, before any further reply is
  delivered. A resent config keeps its \<^verbatim>\<open>_retry\<close> field: axios carries unknown
  fields over when it merges the config with the instance defaults.
\<close>

definition api_request :: "cont \<Rightarrow> config \<Rightarrow> app \<Rightarrow> app" where
  "api_request k c st =
     (let c' = request_use c st; i = length (reqs st)
      in st\<lparr>reqs := reqs st @ [(InFlight c', k)], sent := sent st @ [(i, Api, c')]\<rparr>)"

definition bare_request :: "config \<Rightarrow> app \<Rightarrow> app" where
  "bare_request c st =
     (let i = length (reqs st)
      in st\<lparr>reqs := reqs st @ [(Authenticating c, Caller)], sent := sent st @ [(i, Bare, c)]\<rparr>)"

text \<open>
  What runs when the promise of an \<open>Api\<close> request settles (\<^verbatim>\<open>AuthContext.jsx\<close>):
  \<^verbatim>\<open>logout\<close> swallows a failure and then clears; the bootstrap chain is
  \<^verbatim>\<open>.then(setUser).catch(clearTokens; setUser(null)).finally(setLoading(false))\<close>.
\<close>

fun settle :: "cont \<Rightarrow> failure + string \<Rightarrow> app \<Rightarrow> app" where
  "settle Caller _ st = st"
| "settle LogoutK _ st = (clearTokens st)\<lparr>user := None\<rparr>"
| "settle MeK (Inr d) st = st\<lparr>user := Some d, loading := False\<rparr>"
| "settle MeK (Inl e) st = (clearTokens st)\<lparr>user := None, loading := False\<rparr>"

text \<open>Carrying on request \<open>i\<close> with the outcome of an interceptor segment.\<close>

fun resume :: "nat \<Rightarrow> cont \<Rightarrow> outcome \<times> app \<Rightarrow> app" where
  "resume i k (Reject e, st) = settle k (Inl e) (st\<lparr>reqs := (reqs st)[i := (Rejected e, k)]\<rparr>)"
| "resume i k (PostRefresh e c, st) =
     st\<lparr>reqs := (reqs st)[i := (Refreshing e, k)], sent := sent st @ [(i, Bare, c)]\<rparr>"
| "resume i k (Resend c, st) =
     st\<lparr>reqs := (reqs st)[i := (InFlight c, k)], sent := sent st @ [(i, Api, c)]\<rparr>"

subsection \<open>The provider (\<^verbatim>\<open>AuthContext.jsx\<close>)\<close>

text \<open>
  The bootstrap effect. \<^verbatim>\<open>if (at && rt)\<close> holds when both parameters are present and
  non-empty; \<^verbatim>\<open>replaceState({}, '', '/')\<close> drops the query string.
\<close>

definition ingest :: "app \<Rightarrow> app" where
  "ingest st =
     (case search st of
        (Some at, Some rt) \<Rightarrow>
          if at \<noteq> [] \<and> rt \<noteq> [] then (setTokens at rt st)\<lparr>search := (None, None)\<rparr> else st
      | _ \<Rightarrow> st)"

definition mount :: "app \<Rightarrow> app" where
  "mount st =
     (let st1 = ingest (setLogoutHandler SetUserNull st)
      in if hasTokens st1 then api_request MeK (fresh ''/auth/me'' []) st1
         else st1\<lparr>loading := False\<rparr>)"

definition logout :: "app \<Rightarrow> app" where
  "logout st = api_request LogoutK (fresh ''/auth/logout'' []) st"

definition login :: "string \<Rightarrow> app \<Rightarrow> app" where
  "login d st = bare_request (fresh ''/auth/login'' d) st"

definition signup :: "string \<Rightarrow> app \<Rightarrow> app" where
  "signup d st = bare_request (fresh ''/auth/signup'' d) st"

subsection \<open>The event loop\<close>

datatype reply = Ok string | Fail "nat option"

datatype refresh_reply = RefreshOk string string | RefreshFail "nat option"

datatype auth_reply = AuthOk string string string | AuthFail "nat option"

text \<open>
  An event is a call from the user interface or the delivery of a backend reply to the
  request it answers. A reply addressed to a request that is not waiting for it cannot
  occur and is ignored.
\<close>

datatype event =
    Request string string
  | Mount
  | Logout
  | Login string
  | Signup string
  | Reply nat reply
  | RefreshReply nat refresh_reply
  | AuthReply nat auth_reply

definition on_reply :: "nat \<Rightarrow> reply \<Rightarrow> app \<Rightarrow> app" where
  "on_reply i r st =
     (if i < length (reqs st) then
        (case reqs st ! i of
           (InFlight c, k) \<Rightarrow>
             (case r of
                Ok d \<Rightarrow> settle k (Inr d) (st\<lparr>reqs := (reqs st)[i := (Resolved d, k)]\<rparr>)
              | Fail s \<Rightarrow> resume i k (response_rejected \<lparr>cfg = c, status = s\<rparr> st))
         | _ \<Rightarrow> st)
      else st)"

definition on_refresh_reply :: "nat \<Rightarrow> refresh_reply \<Rightarrow> app \<Rightarrow> app" where
  "on_refresh_reply i r st =
     (if i < length (reqs st) then
        (case reqs st ! i of
           (Refreshing e, k) \<Rightarrow>
             (case r of
                RefreshOk a t \<Rightarrow> resume i k (refresh_fulfilled a t e st)
              | RefreshFail s \<Rightarrow> resume i k (refresh_rejected e st))
         | _ \<Rightarrow> st)
      else st)"

text \<open>
  \<^verbatim>\<open>login\<close> and \<^verbatim>\<open>signup\<close> after their \<^verbatim>\<open>await\<close>: install the pair and the user;
  a failure is thrown to the page and changes nothing else.
\<close>

definition on_auth_reply :: "nat \<Rightarrow> auth_reply \<Rightarrow> app \<Rightarrow> app" where
  "on_auth_reply i r st =
     (if i < length (reqs st) then
        (case reqs st ! i of
           (Authenticating c, k) \<Rightarrow>
             (case r of
                AuthOk a t u \<Rightarrow>
                  (setTokens a t (st\<lparr>reqs := (reqs st)[i := (Resolved u, k)]\<rparr>))\<lparr>user := Some u\<rparr>
              | AuthFail s \<Rightarrow>
                  st\<lparr>reqs := (reqs st)[i := (Rejected \<lparr>cfg = c, status = s\<rparr>, k)]\<rparr>)
         | _ \<Rightarrow> st)
      else st)"

fun step :: "event \<Rightarrow> app \<Rightarrow> app" where
  "step (Request u d) st = api_request Caller (fresh u d) st"
| "step Mount st = mount st"
| "step Logout st = logout st"
| "step (Login d) st = login d st"
| "step (Signup d) st = signup d st"
| "step (Reply i r) st = on_reply i r st"
| "step (RefreshReply i r) st = on_refresh_reply i r st"
| "step (AuthReply i r) st = on_auth_reply i r st"

definition run :: "event list \<Rightarrow> app \<Rightarrow> app" where
  "run evs st = fold step evs st"

subsection \<open>Vocabulary of the properties\<close>

text \<open>Sequences of token-store operations, as the exported functions are called.\<close>

datatype store_op = Set string string | Clear

fun apply_op :: "store_op \<Rightarrow> app \<Rightarrow> app" where
  "apply_op (Set a r) st = setTokens a r st"
| "apply_op Clear st = clearTokens st"

definition exec :: "store_op list \<Rightarrow> app \<Rightarrow> app" where
  "exec ops st = fold apply_op ops st"

text \<open>A set operation is proper when it is given a token pair: neither half is the empty string.\<close>

fun proper :: "store_op \<Rightarrow> bool" where
  "proper (Set a r) = (a \<noteq> [] \<and> r \<noteq> [])"
| "proper Clear = True"

definition holds_pair :: "string \<Rightarrow> string \<Rightarrow> app \<Rightarrow> bool" where
  "holds_pair a r st \<longleftrightarrow>
     accessToken st = a \<and> refreshToken st = r \<and> ja_access st = Some a \<and> ja_refresh st = Some r"

definition holds_nothing :: "app \<Rightarrow> bool" where
  "holds_nothing st \<longleftrightarrow>
     accessToken st = [] \<and> refreshToken st = [] \<and> ja_access st = None \<and> ja_refresh st = None"

definition paired :: "app \<Rightarrow> bool" where
  "paired st \<longleftrightarrow>
     holds_nothing st \<or>
     (accessToken st \<noteq> [] \<and> refreshToken st \<noteq> [] \<and> holds_pair (accessToken st) (refreshToken st) st)"

fun written :: "store_op \<Rightarrow> app \<Rightarrow> bool" where
  "written (Set a r) st = holds_pair a r st"
| "written Clear st = holds_nothing st"

text \<open>
  Counting on the network trace: the refresh posts made for request \<open>i\<close>, and the
  resends of request \<open>i\<close> (a resent config carries \<^verbatim>\<open>_retry\<close>).
\<close>

definition is_refresh :: "nat \<Rightarrow> nat \<times> client \<times> config \<Rightarrow> bool" where
  "is_refresh i x = (case x of (j, cl, c) \<Rightarrow> j = i \<and> cl = Bare \<and> url c = ''/auth/refresh'')"

definition is_retry :: "nat \<Rightarrow> nat \<times> client \<times> config \<Rightarrow> bool" where
  "is_retry i x = (case x of (j, cl, c) \<Rightarrow> j = i \<and> cl = Api \<and> retry c)"

definition refreshes :: "nat \<Rightarrow> app \<Rightarrow> nat" where
  "refreshes i st = length (filter (is_refresh i) (sent st))"

definition retries :: "nat \<Rightarrow> app \<Rightarrow> nat" where
  "retries i st = length (filter (is_retry i) (sent st))"

definition refresh_posts :: "app \<Rightarrow> (nat \<times> client \<times> config) list" where
  "refresh_posts st =
     filter (\<lambda>x. fst (snd x) = Bare \<and> url (snd (snd x)) = ''/auth/refresh'') (sent st)"

definition retry_headers :: "app \<Rightarrow> string option list" where
  "retry_headers st =
     map (\<lambda>x. authorization (snd (snd x)))
       (filter (\<lambda>x. fst (snd x) = Api \<and> retry (snd (snd x))) (sent st))"

text \<open>
  The invariant that ties the phase of a request to what was sent for it: \<open>f\<close> refresh
  posts and \<open>t\<close> resends.
\<close>

fun phase_ok :: "phase \<Rightarrow> nat \<Rightarrow> nat \<Rightarrow> bool" where
  "phase_ok (InFlight c) f t = (if retry c then f = 1 \<and> t = 1 else f = 0 \<and> t = 0)"
| "phase_ok (Refreshing e) f t = (retry (cfg e) \<and> f = 1 \<and> t = 0)"
| "phase_ok (Authenticating c) f t = (f = 0 \<and> t = 0)"
| "phase_ok (Resolved d) f t = (f \<le> 1 \<and> t \<le> 1)"
| "phase_ok (Rejected e) f t = (f \<le> 1 \<and> t \<le> 1)"

definition slot_ok :: "(phase \<times> cont) list \<Rightarrow> (nat \<times> client \<times> config) list \<Rightarrow> nat \<Rightarrow> bool" where
  "slot_ok rs tr i \<longleftrightarrow>
     (if i < length rs
      then phase_ok (fst (rs ! i)) (length (filter (is_refresh i) tr)) (length (filter (is_retry i) tr))
      else length (filter (is_refresh i) tr) = 0 \<and> length (filter (is_retry i) tr) = 0)"

definition tally_ok :: "(phase \<times> cont) list \<Rightarrow> (nat \<times> client \<times> config) list \<Rightarrow> bool" where
  "tally_ok rs tr \<longleftrightarrow> (\<forall>i. slot_ok rs tr i)"

definition inv :: "app \<Rightarrow> bool" where
  "inv st \<longleftrightarrow> tally_ok (reqs st) (sent st)"

text \<open>
  The events that can install a token pair: the bootstrap effect (OAuth ingestion), a
  successful refresh reply, a successful login or signup reply.
\<close>

fun installs :: "event \<Rightarrow> bool" where
  "installs Mount = True"
| "installs (RefreshReply i (RefreshOk a t)) = True"
| "installs (AuthReply i (AuthOk a t u)) = True"
| "installs ev = False"

text \<open>\<^verbatim>\<open>logout()\<close> has completed once the request it awaits has settled.\<close>

definition logout_done :: "nat \<Rightarrow> app \<Rightarrow> bool" where
  "logout_done i st \<longleftrightarrow>
     i < length (reqs st) \<and> snd (reqs st ! i) = LogoutK \<and>
     (case fst (reqs st ! i) of Resolved d \<Rightarrow> True | Rejected e \<Rightarrow> True | _ \<Rightarrow> False)"

definition unauthenticated :: "(nat \<times> client \<times> config) list \<Rightarrow> bool" where
  "unauthenticated tr \<longleftrightarrow> (\<forall>x\<in>set tr. authorization (snd (snd x)) = None)"

definition bare_unauthenticated :: "(nat \<times> client \<times> config) list \<Rightarrow> bool" where
  "bare_unauthenticated tr \<longleftrightarrow>
     (\<forall>x\<in>set tr. fst (snd x) = Bare \<longrightarrow> authorization (snd (snd x)) = None)"

text \<open>
  Two concrete scenarios: a browser that holds the persisted pair \<open>(A1, R1)\<close>, and the
  same browser after the provider has mounted, \<^verbatim>\<open>/auth/me\<close> has answered, and two
  page requests (numbers 1 and 2) are in flight.
\<close>

definition persisted :: app where
  "persisted = load (Some ''A1'') (Some ''R1'') (None, None)"

definition two_pending :: app where
  "two_pending =
     run [Mount, Reply 0 (Ok ''u''), Request ''/profile'' [], Request ''/threads'' []] persisted"

section \<open>Properties\<close>

lemmas model_defs =
  run_def load_def or_empty_def mount_def ingest_def setLogoutHandler_def setTokens_def clearTokens_def
  hasTokens_def getTokens_def bearer_def request_use_def fresh_def response_rejected_def
  refresh_fulfilled_def refresh_rejected_def invoke_onLogout_def api_request_def bare_request_def
  logout_def login_def signup_def on_reply_def on_refresh_reply_def on_auth_reply_def Let_def

subsection \<open>What a step does to the requests and the trace\<close>

lemma phase_ok_le: "phase_ok p f t \<Longrightarrow> f \<le> 1 \<and> t \<le> 1"
  by (cases p) (auto split: if_splits)

lemma reqs_clearTokens [simp]: "reqs (clearTokens st) = reqs st"
  and sent_clearTokens [simp]: "sent (clearTokens st) = sent st"
  and reqs_setTokens [simp]: "reqs (setTokens a r st) = reqs st"
  and sent_setTokens [simp]: "sent (setTokens a r st) = sent st"
  and reqs_invoke [simp]: "reqs (invoke_onLogout st) = reqs st"
  and sent_invoke [simp]: "sent (invoke_onLogout st) = sent st"
  by (simp_all add: clearTokens_def setTokens_def invoke_onLogout_def split: option.splits handler.splits)

lemma reqs_settle [simp]: "reqs (settle k r st) = reqs st"
  and sent_settle [simp]: "sent (settle k r st) = sent st"
  by (cases k; cases r; simp)+

lemma retry_request_use [simp]: "retry (request_use c st) = retry c"
  by (simp add: request_use_def)

subsection \<open>The tally invariant\<close>

lemma tally_new_api:
  assumes "tally_ok rs tr" and "\<not> retry c"
  shows "tally_ok (rs @ [(InFlight c, k)]) (tr @ [(length rs, Api, c)])"
  unfolding tally_ok_def
proof
  fix j
  from assms(1) have "slot_ok rs tr j" by (simp add: tally_ok_def)
  with assms(2) show "slot_ok (rs @ [(InFlight c, k)]) (tr @ [(length rs, Api, c)]) j"
    by (auto simp add: slot_ok_def nth_append is_refresh_def is_retry_def split: if_splits)
qed

lemma tally_new_bare:
  assumes "tally_ok rs tr" and "url c \<noteq> ''/auth/refresh''"
  shows "tally_ok (rs @ [(Authenticating c, k)]) (tr @ [(length rs, Bare, c)])"
  unfolding tally_ok_def
proof
  fix j
  from assms(1) have "slot_ok rs tr j" by (simp add: tally_ok_def)
  with assms(2) show "slot_ok (rs @ [(Authenticating c, k)]) (tr @ [(length rs, Bare, c)]) j"
    by (auto simp add: slot_ok_def nth_append is_refresh_def is_retry_def split: if_splits)
qed

lemma tally_done:
  assumes "tally_ok rs tr" and "p = Resolved d \<or> p = Rejected e"
  shows "tally_ok (rs[i := (p, k)]) tr"
  unfolding tally_ok_def
proof
  fix j
  from assms(1) have "slot_ok rs tr j" by (simp add: tally_ok_def)
  with assms(2) show "slot_ok (rs[i := (p, k)]) tr j"
    by (cases "j = i") (auto simp add: slot_ok_def dest: phase_ok_le split: if_splits)
qed

lemma tally_refresh:
  assumes "tally_ok rs tr" and "i < length rs" and "rs ! i = (InFlight c, k)" and "\<not> retry c"
    and "retry (cfg e)" and "url rc = ''/auth/refresh''"
  shows "tally_ok (rs[i := (Refreshing e, k)]) (tr @ [(i, Bare, rc)])"
  unfolding tally_ok_def
proof
  fix j
  from assms(1) have "slot_ok rs tr j" by (simp add: tally_ok_def)
  with assms(2-) show "slot_ok (rs[i := (Refreshing e, k)]) (tr @ [(i, Bare, rc)]) j"
    by (cases "j = i") (auto simp add: slot_ok_def is_refresh_def is_retry_def split: if_splits)
qed

lemma tally_resend:
  assumes "tally_ok rs tr" and "i < length rs" and "rs ! i = (Refreshing e, k)" and "retry c = retry (cfg e)"
  shows "tally_ok (rs[i := (InFlight c, k)]) (tr @ [(i, Api, c)])"
  unfolding tally_ok_def
proof
  fix j
  from assms(1) have "slot_ok rs tr j" by (simp add: tally_ok_def)
  with assms(2-) show "slot_ok (rs[i := (InFlight c, k)]) (tr @ [(i, Api, c)]) j"
    by (cases "j = i") (auto simp add: slot_ok_def is_refresh_def is_retry_def split: if_splits)
qed

lemma inv_api_request: "inv st \<Longrightarrow> \<not> retry c \<Longrightarrow> inv (api_request k c st)"
  by (simp add: inv_def api_request_def Let_def tally_new_api)

lemma inv_bare_request: "inv st \<Longrightarrow> url c \<noteq> ''/auth/refresh'' \<Longrightarrow> inv (bare_request c st)"
  by (simp add: inv_def bare_request_def Let_def tally_new_bare)

lemma inv_mount: "inv st \<Longrightarrow> inv (mount st)"
proof -
  assume a: "inv st"
  have "inv (ingest (setLogoutHandler SetUserNull st))"
    using a by (simp add: inv_def ingest_def setLogoutHandler_def split: option.splits prod.splits)
  then show ?thesis
    by (simp add: mount_def Let_def inv_api_request fresh_def) (simp add: inv_def)
qed

lemma inv_on_reply: "inv st \<Longrightarrow> inv (on_reply i r st)"
  by (auto simp add: on_reply_def inv_def response_rejected_def tally_done tally_refresh fresh_def
      split: prod.splits phase.splits reply.splits)

lemma inv_on_refresh_reply: "inv st \<Longrightarrow> inv (on_refresh_reply i r st)"
  by (auto simp add: on_refresh_reply_def inv_def refresh_fulfilled_def refresh_rejected_def Let_def
      tally_done tally_resend split: prod.splits phase.splits refresh_reply.splits)

lemma inv_on_auth_reply: "inv st \<Longrightarrow> inv (on_auth_reply i r st)"
  by (auto simp add: on_auth_reply_def inv_def tally_done
      split: prod.splits phase.splits auth_reply.splits)

lemma inv_step: "inv st \<Longrightarrow> inv (step ev st)"
  by (cases ev)
    (simp_all add: inv_api_request inv_mount inv_on_reply inv_on_refresh_reply inv_on_auth_reply
      logout_def login_def signup_def inv_bare_request fresh_def)

lemma inv_run: "inv st \<Longrightarrow> inv (run evs st)"
  unfolding run_def by (induction evs arbitrary: st) (simp_all add: inv_step)

lemma inv_load: "inv (load a r q)"
  by (simp add: inv_def load_def tally_ok_def slot_ok_def)

lemma inv_bounds: "inv st \<Longrightarrow> refreshes i st \<le> 1 \<and> retries i st \<le> 1"
  unfolding inv_def tally_ok_def slot_ok_def refreshes_def retries_def
  by (metis phase_ok_le le0)

subsection \<open>Single steps of the refresh flow\<close>

lemma step_401:
  assumes "i < length (reqs st)" and "reqs st ! i = (InFlight c, k)" and "\<not> retry c"
    and "refreshToken st \<noteq> []"
  shows "on_reply i (Fail (Some 401)) st =
         st\<lparr>reqs := (reqs st)[i := (Refreshing \<lparr>cfg = c\<lparr>retry := True\<rparr>, status = Some 401\<rparr>, k)],
            sent := sent st @ [(i, Bare, fresh ''/auth/refresh'' (refreshToken st))]\<rparr>"
  using assms by (simp add: on_reply_def response_rejected_def)

lemma step_refresh_ok:
  assumes "i < length (reqs st)" and "reqs st ! i = (Refreshing e, k)"
  shows "on_refresh_reply i (RefreshOk a t) st =
         (setTokens a t st)\<lparr>reqs := (reqs st)[i := (InFlight ((cfg e)\<lparr>authorization := Some (bearer a)\<rparr>), k)],
            sent := sent st @ [(i, Api, (cfg e)\<lparr>authorization := Some (bearer a)\<rparr>)]\<rparr>"
  using assms
  by (simp add: on_refresh_reply_def refresh_fulfilled_def Let_def request_use_def setTokens_def)

lemma step_refresh_fail:
  assumes "i < length (reqs st)" and "reqs st ! i = (Refreshing e, k)"
  shows "on_refresh_reply i (RefreshFail s) st =
         settle k (Inl e) ((invoke_onLogout (clearTokens st))\<lparr>reqs := (reqs st)[i := (Rejected e, k)]\<rparr>)"
  using assms
  by (simp add: on_refresh_reply_def refresh_rejected_def)

lemma burst_401:
  assumes "distinct ids"
    and "\<forall>i\<in>set ids. i < length (reqs st) \<and> reqs st ! i = (InFlight (cs i), ks i) \<and> \<not> retry (cs i)"
    and "refreshToken st \<noteq> []"
  shows "sent (run (map (\<lambda>i. Reply i (Fail (Some 401))) ids) st) =
           sent st @ map (\<lambda>i. (i, Bare, fresh ''/auth/refresh'' (refreshToken st))) ids
       \<and> length (reqs (run (map (\<lambda>i. Reply i (Fail (Some 401))) ids) st)) = length (reqs st)
       \<and> (\<forall>i\<in>set ids. reqs (run (map (\<lambda>i. Reply i (Fail (Some 401))) ids) st) ! i =
             (Refreshing \<lparr>cfg = (cs i)\<lparr>retry := True\<rparr>, status = Some 401\<rparr>, ks i))
       \<and> (\<forall>j. j \<notin> set ids \<longrightarrow> reqs (run (map (\<lambda>i. Reply i (Fail (Some 401))) ids) st) ! j = reqs st ! j)"
  using assms
proof (induction ids arbitrary: st)
  case Nil
  then show ?case by (simp add: run_def)
next
  case (Cons i ids)
  let ?st1 = "step (Reply i (Fail (Some 401))) st"
  from Cons.prems have i: "i < length (reqs st)" "reqs st ! i = (InFlight (cs i), ks i)" "\<not> retry (cs i)"
    by simp_all
  note s1 = step_401 [OF i Cons.prems(3)]
  have d: "distinct ids" and ni: "i \<notin> set ids" using Cons.prems(1) by simp_all
  have p: "\<forall>j\<in>set ids. j < length (reqs ?st1) \<and> reqs ?st1 ! j = (InFlight (cs j), ks j) \<and> \<not> retry (cs j)"
    using Cons.prems(2) ni by (auto simp add: s1 nth_list_update)
  have r: "refreshToken ?st1 \<noteq> []" using Cons.prems(3) by (simp add: s1)
  have run: "run (map (\<lambda>i. Reply i (Fail (Some 401))) (i # ids)) st
           = run (map (\<lambda>i. Reply i (Fail (Some 401))) ids) ?st1"
    by (simp add: run_def)
  from Cons.IH [OF d p r] i ni show ?case
    unfolding run by (auto simp add: s1)
qed

lemma burst_refresh_ok:
  assumes "distinct js"
    and "\<forall>j\<in>set js. j < length (reqs st) \<and> reqs st ! j = (Refreshing (es j), ks j)"
  shows "sent (run (map (\<lambda>j. RefreshReply j (RefreshOk (acc j) (ref j))) js) st) =
           sent st @ map (\<lambda>j. (j, Api, (cfg (es j))\<lparr>authorization := Some (bearer (acc j))\<rparr>)) js"
  using assms
proof (induction js arbitrary: st)
  case Nil
  then show ?case by (simp add: run_def)
next
  case (Cons j js)
  let ?st1 = "step (RefreshReply j (RefreshOk (acc j) (ref j))) st"
  from Cons.prems have j: "j < length (reqs st)" "reqs st ! j = (Refreshing (es j), ks j)"
    by simp_all
  note s1 = step_refresh_ok [OF j]
  have d: "distinct js" and nj: "j \<notin> set js" using Cons.prems(1) by simp_all
  have p: "\<forall>i\<in>set js. i < length (reqs ?st1) \<and> reqs ?st1 ! i = (Refreshing (es i), ks i)"
    using Cons.prems(2) nj by (auto simp add: s1 nth_list_update)
  have run: "run (map (\<lambda>j. RefreshReply j (RefreshOk (acc j) (ref j))) (j # js)) st
           = run (map (\<lambda>j. RefreshReply j (RefreshOk (acc j) (ref j))) js) ?st1"
    by (simp add: run_def)
  from Cons.IH [OF d p] show ?case
    unfolding run by (simp add: s1)
qed

lemma run_append: "run (xs @ ys) st = run ys (run xs st)"
  by (simp add: run_def)

lemma burst_refresh_fail:
  assumes "distinct js"
    and "\<forall>j\<in>set js. j < length (reqs st) \<and> reqs st ! j = (Refreshing (es j), Caller)"
    and "onLogout st = Some SetUserNull"
  shows "hook_calls (run (map (\<lambda>j. RefreshReply j (RefreshFail (codes j))) js) st) = hook_calls st + length js
       \<and> clear_calls (run (map (\<lambda>j. RefreshReply j (RefreshFail (codes j))) js) st) = clear_calls st + length js
       \<and> sent (run (map (\<lambda>j. RefreshReply j (RefreshFail (codes j))) js) st) = sent st
       \<and> (js \<noteq> [] \<longrightarrow> holds_nothing (run (map (\<lambda>j. RefreshReply j (RefreshFail (codes j))) js) st))
       \<and> (\<forall>j\<in>set js. reqs (run (map (\<lambda>j. RefreshReply j (RefreshFail (codes j))) js) st) ! j = (Rejected (es j), Caller))
       \<and> (\<forall>i. i \<notin> set js \<longrightarrow> reqs (run (map (\<lambda>j. RefreshReply j (RefreshFail (codes j))) js) st) ! i = reqs st ! i)"
  using assms
proof (induction js arbitrary: st)
  case Nil
  then show ?case by (simp add: run_def)
next
  case (Cons j js)
  let ?st1 = "on_refresh_reply j (RefreshFail (codes j)) st"
  from Cons.prems have j: "j < length (reqs st)" "reqs st ! j = (Refreshing (es j), Caller)"
    by simp_all
  have s1: "?st1 = (invoke_onLogout (clearTokens st))\<lparr>reqs := (reqs st)[j := (Rejected (es j), Caller)]\<rparr>"
    using step_refresh_fail [OF j] by simp
  have d: "distinct js" and nj: "j \<notin> set js" using Cons.prems(1) by simp_all
  have p: "\<forall>i\<in>set js. i < length (reqs ?st1) \<and> reqs ?st1 ! i = (Refreshing (es i), Caller)"
    using Cons.prems(2) nj by (auto simp add: s1 nth_list_update)
  have h: "onLogout ?st1 = Some SetUserNull"
    using Cons.prems(3) by (simp add: s1 invoke_onLogout_def clearTokens_def)
  have c: "hook_calls ?st1 = Suc (hook_calls st)" "clear_calls ?st1 = Suc (clear_calls st)"
    "sent ?st1 = sent st" "holds_nothing ?st1"
    using Cons.prems(3) by (simp_all add: s1 invoke_onLogout_def clearTokens_def holds_nothing_def)
  have r: "reqs ?st1 = (reqs st)[j := (Rejected (es j), Caller)]" by (simp add: s1)
  have run: "run (map (\<lambda>j. RefreshReply j (RefreshFail (codes j))) (j # js)) st
           = run (map (\<lambda>j. RefreshReply j (RefreshFail (codes j))) js) ?st1"
    by (simp add: run_def)
  from Cons.IH [OF d p h] j nj c show ?case
    unfolding run by (cases "js = []") (auto simp add: r run_def)
qed

subsection \<open>An empty store stays empty\<close>

lemma holds_nothing_settle: "holds_nothing st \<Longrightarrow> holds_nothing (settle k res st)"
  by (cases k; cases res) (simp_all add: holds_nothing_def clearTokens_def)

lemma quiet_step:
  assumes "holds_nothing st" and "\<not> installs ev"
  shows "holds_nothing (step ev st)
       \<and> (\<exists>new. sent (step ev st) = sent st @ new \<and> unauthenticated new)"
proof (cases ev)
  case (Request u d)
  with assms show ?thesis
    by (simp add: api_request_def request_use_def holds_nothing_def fresh_def unauthenticated_def Let_def)
next
  case Mount
  with assms show ?thesis by simp
next
  case Logout
  with assms show ?thesis
    by (simp add: logout_def api_request_def request_use_def holds_nothing_def fresh_def unauthenticated_def Let_def)
next
  case (Login d)
  with assms show ?thesis
    by (simp add: login_def bare_request_def holds_nothing_def fresh_def unauthenticated_def Let_def)
next
  case (Signup d)
  with assms show ?thesis
    by (simp add: signup_def bare_request_def holds_nothing_def fresh_def unauthenticated_def Let_def)
next
  case (Reply i r)
  have "refreshToken st = []" using assms(1) by (simp add: holds_nothing_def)
  then have "sent (on_reply i r st) = sent st \<and> holds_nothing (on_reply i r st)"
    using assms(1)
    by (auto simp add: on_reply_def response_rejected_def holds_nothing_settle
        intro!: holds_nothing_settle split: prod.splits phase.splits reply.splits)
      (simp_all add: holds_nothing_def)
  with Reply show ?thesis by (simp add: unauthenticated_def)
next
  case (RefreshReply i r)
  with assms(2) obtain s where r: "r = RefreshFail s" by (cases r) simp_all
  have "sent (on_refresh_reply i r st) = sent st \<and> holds_nothing (on_refresh_reply i r st)"
    using assms(1) unfolding r
    by (auto simp add: on_refresh_reply_def refresh_rejected_def
        intro!: holds_nothing_settle split: prod.splits phase.splits)
      (simp_all add: holds_nothing_def invoke_onLogout_def clearTokens_def split: option.splits handler.splits)
  with RefreshReply show ?thesis by (simp add: unauthenticated_def)
next
  case (AuthReply i r)
  with assms(2) obtain s where r: "r = AuthFail s" by (cases r) simp_all
  have "sent (on_auth_reply i r st) = sent st \<and> holds_nothing (on_auth_reply i r st)"
    using assms(1) unfolding r
    by (auto simp add: on_auth_reply_def holds_nothing_def split: prod.splits phase.splits)
  with AuthReply show ?thesis by (simp add: unauthenticated_def)
qed

lemma quiet_run:
  assumes "holds_nothing st" and "\<forall>ev\<in>set evs. \<not> installs ev"
  shows "holds_nothing (run evs st)
       \<and> (\<exists>new. sent (run evs st) = sent st @ new \<and> unauthenticated new)"
  using assms
proof (induction evs arbitrary: st)
  case Nil
  then show ?case by (simp add: run_def unauthenticated_def)
next
  case (Cons ev evs)
  from Cons.prems have q: "\<not> installs ev" and qs: "\<forall>e\<in>set evs. \<not> installs e" by simp_all
  from quiet_step [OF Cons.prems(1) q] obtain n1
    where h1: "holds_nothing (step ev st)" and s1: "sent (step ev st) = sent st @ n1"
      and u1: "unauthenticated n1" by blast
  from Cons.IH [OF h1 qs] obtain n2
    where h2: "holds_nothing (run evs (step ev st))"
      and s2: "sent (run evs (step ev st)) = sent (step ev st) @ n2"
      and u2: "unauthenticated n2" by blast
  have "run (ev # evs) st = run evs (step ev st)" by (simp add: run_def)
  moreover have "unauthenticated (n1 @ n2)" using u1 u2 by (auto simp add: unauthenticated_def)
  ultimately show ?case using h2 s1 s2 by simp
qed

lemma logout_settles_empty:
  assumes "ev = Reply i r \<or> ev = RefreshReply i rr"
    and "\<not> logout_done i st" and "logout_done i (step ev st)"
  shows "holds_nothing (step ev st) \<and> user (step ev st) = None"
  using assms
  by (auto simp add: logout_done_def on_reply_def on_refresh_reply_def response_rejected_def
      refresh_rejected_def refresh_fulfilled_def Let_def holds_nothing_def clearTokens_def
      split: prod.splits phase.splits reply.splits refresh_reply.splits if_splits cont.splits)

subsection \<open>Bare calls\<close>

lemma step_sent_bare:
  "\<exists>new. sent (step ev st) = sent st @ new \<and> bare_unauthenticated new"
proof (cases ev)
  case (Reply i r)
  then show ?thesis
    by (auto simp add: on_reply_def response_rejected_def bare_unauthenticated_def fresh_def
        split: prod.splits phase.splits reply.splits)
next
  case (RefreshReply i r)
  then show ?thesis
    by (auto simp add: on_refresh_reply_def refresh_fulfilled_def refresh_rejected_def Let_def
        bare_unauthenticated_def split: prod.splits phase.splits refresh_reply.splits)
next
  case (AuthReply i r)
  then show ?thesis
    by (auto simp add: on_auth_reply_def bare_unauthenticated_def
        split: prod.splits phase.splits auth_reply.splits)
next
  case Mount
  have "sent (ingest (setLogoutHandler SetUserNull st)) = sent st"
    by (simp add: ingest_def setLogoutHandler_def split: option.splits prod.splits)
  with Mount show ?thesis
    by (simp add: mount_def Let_def api_request_def bare_unauthenticated_def)
qed (simp_all add: api_request_def bare_request_def logout_def login_def signup_def Let_def
      bare_unauthenticated_def fresh_def)

lemma run_sent_bare:
  "bare_unauthenticated (sent st) \<Longrightarrow> bare_unauthenticated (sent (run evs st))"
proof (induction evs arbitrary: st)
  case Nil
  then show ?case by (simp add: run_def)
next
  case (Cons ev evs)
  obtain new where "sent (step ev st) = sent st @ new" and "bare_unauthenticated new"
    using step_sent_bare by blast
  with Cons.prems have "bare_unauthenticated (sent (step ev st))"
    by (auto simp add: bare_unauthenticated_def)
  from Cons.IH [OF this] show ?case by (simp add: run_def)
qed

subsection \<open>The token store under set and clear\<close>

lemma exec_snoc: "exec (ops @ [x]) st = apply_op x (exec ops st)"
  by (simp add: exec_def)

lemma written_apply_op: "written x (apply_op x st)"
  by (cases x) (simp_all add: setTokens_def clearTokens_def holds_pair_def holds_nothing_def)

lemma paired_apply_op: "proper x \<Longrightarrow> paired (apply_op x st)"
  by (cases x) (simp_all add: setTokens_def clearTokens_def holds_pair_def holds_nothing_def paired_def)

subsection \<open>Concurrent 401 replies\<close>

text \<open>
  C1 (as amended). The client has no shared in-flight refresh: when N requests, none of
  them resent before and with a refresh token in the store, each receive a 401 before
  any refresh reply arrives, each of them posts its own refresh. Exactly N refresh
  posts reach the backend, one per request and all with the same stored refresh
  token; when the N refresh replies then succeed, in any order, each request is
  resent once with the access token of its own refresh reply.
\<close>

theorem each_401_posts_its_own_refresh:
  assumes "distinct ids" and "distinct js" and "set js = set ids"
    and "\<forall>i\<in>set ids. i < length (reqs st) \<and> reqs st ! i = (InFlight (cs i), ks i) \<and> \<not> retry (cs i)"
    and "refreshToken st \<noteq> []"
  shows "sent (run (map (\<lambda>i. Reply i (Fail (Some 401))) ids
                    @ map (\<lambda>j. RefreshReply j (RefreshOk (acc j) (ref j))) js) st)
       = sent st
         @ map (\<lambda>i. (i, Bare, fresh ''/auth/refresh'' (refreshToken st))) ids
         @ map (\<lambda>j. (j, Api, (cs j)\<lparr>retry := True, authorization := Some (bearer (acc j))\<rparr>)) js"
proof -
  let ?st1 = "run (map (\<lambda>i. Reply i (Fail (Some 401))) ids) st"
  note b = burst_401 [OF assms(1) assms(4) assms(5)]
  have p: "\<forall>j\<in>set js. j < length (reqs ?st1)
             \<and> reqs ?st1 ! j = (Refreshing \<lparr>cfg = (cs j)\<lparr>retry := True\<rparr>, status = Some 401\<rparr>, ks j)"
    using b assms(3) assms(4) by simp
  show ?thesis
    unfolding run_append
    using burst_refresh_ok [OF assms(2) p, of acc ref] b by simp
qed

text \<open>
  The theorem at the two page requests of \<open>two_pending\<close>, whose refresh replies arrive
  in the opposite order.
\<close>

theorem each_401_posts_its_own_refresh_witness:
  "refreshToken two_pending = ''R1''
   \<and> sent (run [Reply 1 (Fail (Some 401)), Reply 2 (Fail (Some 401)),
                RefreshReply 2 (RefreshOk ''A3'' ''R3''), RefreshReply 1 (RefreshOk ''A2'' ''R2'')]
               two_pending)
     = sent two_pending
       @ [(1, Bare, fresh ''/auth/refresh'' ''R1''), (2, Bare, fresh ''/auth/refresh'' ''R1''),
          (2, Api, \<lparr>url = ''/threads'', authorization = Some ''Bearer A3'', retry = True, data = []\<rparr>),
          (1, Api, \<lparr>url = ''/profile'', authorization = Some ''Bearer A2'', retry = True, data = []\<rparr>)]"
proof -
  let ?cs = "\<lambda>i::nat. \<lparr>url = (if i = 1 then ''/profile'' else ''/threads''),
                        authorization = Some ''Bearer A1'', retry = False, data = []\<rparr>"
  let ?acc = "\<lambda>j::nat. if j = 1 then ''A2'' else ''A3''"
  let ?ref = "\<lambda>j::nat. if j = 1 then ''R2'' else ''R3''"
  have r: "refreshToken two_pending = ''R1''"
    by (simp add: two_pending_def persisted_def model_defs)
  have h: "\<forall>i\<in>set [1, 2]. i < length (reqs two_pending)
             \<and> reqs two_pending ! i = (InFlight (?cs i), Caller) \<and> \<not> retry (?cs i)"
    by (simp add: two_pending_def persisted_def model_defs)
  have n: "refreshToken two_pending \<noteq> []" by (simp add: r)
  have "distinct [1::nat, 2]" and "distinct [2::nat, 1]" and "set [2::nat, 1] = set [1, 2]"
    by auto
  from each_401_posts_its_own_refresh [OF this h n, of ?acc ?ref] r
  show ?thesis by (simp add: bearer_def)
qed

text \<open>
  With N = 2 the claim of a single refresh call fails: after the two 401 replies two
  refresh posts have reached the backend, and when both succeed the two resends
  carry different access tokens.
\<close>

theorem single_flight_counterexample:
  "length (refresh_posts (run [Reply 1 (Fail (Some 401)), Reply 2 (Fail (Some 401))] two_pending)) = 2
   \<and> retry_headers (run [Reply 1 (Fail (Some 401)), Reply 2 (Fail (Some 401)),
                         RefreshReply 1 (RefreshOk ''A2'' ''R2''), RefreshReply 2 (RefreshOk ''A3'' ''R3'')]
                        two_pending)
       = [Some ''Bearer A2'', Some ''Bearer A3'']"
  by (simp add: two_pending_def persisted_def refresh_posts_def retry_headers_def model_defs)

subsection \<open>Concurrent refresh failures\<close>

text \<open>
  C2 (as amended). Every failed refresh clears the token store and invokes the
  registered logout handler once for the request that awaited it. When the refreshes
  of N page requests fail, the store is cleared N times and the handler is invoked N
  times (once when N = 1); the store ends empty and each request is rejected with its
  own failure.
\<close>

theorem each_failed_refresh_logs_out:
  assumes "distinct js"
    and "\<forall>j\<in>set js. j < length (reqs st) \<and> reqs st ! j = (Refreshing (es j), Caller)"
    and "onLogout st = Some SetUserNull"
  shows "hook_calls (run (map (\<lambda>j. RefreshReply j (RefreshFail (codes j))) js) st) = hook_calls st + length js
       \<and> clear_calls (run (map (\<lambda>j. RefreshReply j (RefreshFail (codes j))) js) st) = clear_calls st + length js
       \<and> (js \<noteq> [] \<longrightarrow> holds_nothing (run (map (\<lambda>j. RefreshReply j (RefreshFail (codes j))) js) st))
       \<and> (\<forall>j\<in>set js. reqs (run (map (\<lambda>j. RefreshReply j (RefreshFail (codes j))) js) st) ! j = (Rejected (es j), Caller))"
  using burst_refresh_fail [OF assms] by simp

text \<open>The theorem at one page request of \<open>two_pending\<close> whose refresh is answered with 401.\<close>

theorem each_failed_refresh_logs_out_witness:
  "onLogout (run [Reply 1 (Fail (Some 401))] two_pending) = Some SetUserNull
   \<and> hook_calls (run [RefreshReply 1 (RefreshFail (Some 401))] (run [Reply 1 (Fail (Some 401))] two_pending))
       = hook_calls (run [Reply 1 (Fail (Some 401))] two_pending) + 1
   \<and> clear_calls (run [RefreshReply 1 (RefreshFail (Some 401))] (run [Reply 1 (Fail (Some 401))] two_pending))
       = clear_calls (run [Reply 1 (Fail (Some 401))] two_pending) + 1
   \<and> holds_nothing (run [RefreshReply 1 (RefreshFail (Some 401))] (run [Reply 1 (Fail (Some 401))] two_pending))"
proof -
  let ?st = "run [Reply 1 (Fail (Some 401))] two_pending"
  let ?es = "\<lambda>j::nat. \<lparr>cfg = \<lparr>url = ''/profile'', authorization = Some ''Bearer A1'', retry = True,
                               data = []\<rparr>, status = Some 401\<rparr>"
  have h: "\<forall>j\<in>set [1]. j < length (reqs ?st) \<and> reqs ?st ! j = (Refreshing (?es j), Caller)"
    by (simp add: two_pending_def persisted_def model_defs)
  have l: "onLogout ?st = Some SetUserNull"
    by (simp add: two_pending_def persisted_def model_defs)
  have "distinct [1::nat]" by simp
  from each_failed_refresh_logs_out [OF this h l, of "\<lambda>j. Some 401"] l
  show ?thesis by simp
qed

text \<open>
  With two requests awaiting refresh results the claim of a single clear and a single
  handler invocation fails: both refresh posts carried the refresh token \<open>R1\<close>, both
  are answered with 401, and the store is cleared twice and the handler runs twice.
\<close>

theorem single_logout_counterexample:
  "map (\<lambda>x. data (snd (snd x)))
     (refresh_posts (run [Reply 1 (Fail (Some 401)), Reply 2 (Fail (Some 401))] two_pending))
     = [''R1'', ''R1'']
   \<and> hook_calls two_pending = 0 \<and> clear_calls two_pending = 0
   \<and> hook_calls (run [Reply 1 (Fail (Some 401)), Reply 2 (Fail (Some 401)),
                    RefreshReply 1 (RefreshFail (Some 401)), RefreshReply 2 (RefreshFail (Some 401))]
                   two_pending) = 2
   \<and> clear_calls (run [Reply 1 (Fail (Some 401)), Reply 2 (Fail (Some 401)),
                    RefreshReply 1 (RefreshFail (Some 401)), RefreshReply 2 (RefreshFail (Some 401))]
                   two_pending) = 2"
  by (simp add: two_pending_def persisted_def refresh_posts_def model_defs)

subsection \<open>One refresh and one resend for each request\<close>

text \<open>
  C3. In every state the client can reach from its initial load, at most one refresh
  post and at most one resend have been made for any request. A request whose config
  carries the retried flag and that fails again, with 401 or any other status, is
  rejected with that failure: the handler returns the rejection without touching the
  state, and nothing is sent.
\<close>

theorem one_refresh_one_retry:
  assumes "st = run evs (load a r q)"
    and "i < length (reqs st)" and "reqs st ! i = (InFlight c, k)" and "retry c"
  shows "refreshes j st \<le> 1 \<and> retries j st \<le> 1
       \<and> response_rejected \<lparr>cfg = c, status = s\<rparr> st = (Reject \<lparr>cfg = c, status = s\<rparr>, st)
       \<and> step (Reply i (Fail s)) st
           = settle k (Inl \<lparr>cfg = c, status = s\<rparr>)
               (st\<lparr>reqs := (reqs st)[i := (Rejected \<lparr>cfg = c, status = s\<rparr>, k)]\<rparr>)
       \<and> sent (step (Reply i (Fail s)) st) = sent st"
proof -
  have "inv st" unfolding assms(1) by (rule inv_run [OF inv_load])
  then have "refreshes j st \<le> 1 \<and> retries j st \<le> 1" by (rule inv_bounds)
  moreover have "response_rejected \<lparr>cfg = c, status = s\<rparr> st = (Reject \<lparr>cfg = c, status = s\<rparr>, st)"
    using assms(4) by (simp add: response_rejected_def)
  ultimately show ?thesis
    using assms(2,3) by (simp add: on_reply_def)
qed

text \<open>
  The theorem at a request that was answered 401, refreshed, resent, and is answered
  401 again.
\<close>

theorem one_refresh_one_retry_witness:
  "refreshes 0 (run [Request ''/profile'' [], Reply 0 (Fail (Some 401)),
                     RefreshReply 0 (RefreshOk ''A2'' ''R2'')] persisted) \<le> 1
   \<and> retries 0 (run [Request ''/profile'' [], Reply 0 (Fail (Some 401)),
                     RefreshReply 0 (RefreshOk ''A2'' ''R2'')] persisted) \<le> 1
   \<and> sent (step (Reply 0 (Fail (Some 401)))
            (run [Request ''/profile'' [], Reply 0 (Fail (Some 401)),
                  RefreshReply 0 (RefreshOk ''A2'' ''R2'')] persisted))
     = sent (run [Request ''/profile'' [], Reply 0 (Fail (Some 401)),
                  RefreshReply 0 (RefreshOk ''A2'' ''R2'')] persisted)"
proof -
  let ?evs = "[Request ''/profile'' [], Reply 0 (Fail (Some 401)), RefreshReply 0 (RefreshOk ''A2'' ''R2'')]"
  let ?st = "run ?evs (load (Some ''A1'') (Some ''R1'') (None, None))"
  let ?c = "\<lparr>url = ''/profile'', authorization = Some ''Bearer A2'', retry = True, data = []\<rparr>"
  have a: "?st = run ?evs (load (Some ''A1'') (Some ''R1'') (None, None))" by (rule refl)
  have b: "0 < length (reqs ?st)" by (simp add: model_defs)
  have c: "reqs ?st ! 0 = (InFlight ?c, Caller)" by (simp add: model_defs)
  have d: "retry ?c" by simp
  from one_refresh_one_retry [OF a b c d, of 0 "Some 401"]
  show ?thesis unfolding persisted_def by blast
qed

subsection \<open>A failed refresh\<close>

text \<open>
  C4. When the 401 of a page request starts a refresh and that refresh fails, with
  whatever status \<open>s\<close>, the stored pair is cleared in memory and in storage, the
  registered logout handler is invoked once, and the request is rejected with its own
  401 failure (the original error object, whose config now carries the retried flag),
  not with the error of the refresh call.
\<close>

theorem failed_refresh_rejects_original:
  assumes "i < length (reqs st)" and "reqs st ! i = (InFlight c, Caller)" and "\<not> retry c"
    and "refreshToken st \<noteq> []" and "onLogout st = Some SetUserNull"
  shows "holds_nothing (run [Reply i (Fail (Some 401)), RefreshReply i (RefreshFail s)] st)
       \<and> hook_calls (run [Reply i (Fail (Some 401)), RefreshReply i (RefreshFail s)] st) = Suc (hook_calls st)
       \<and> user (run [Reply i (Fail (Some 401)), RefreshReply i (RefreshFail s)] st) = None
       \<and> reqs (run [Reply i (Fail (Some 401)), RefreshReply i (RefreshFail s)] st) ! i
           = (Rejected \<lparr>cfg = c\<lparr>retry := True\<rparr>, status = Some 401\<rparr>, Caller)"
proof -
  let ?e = "\<lparr>cfg = c\<lparr>retry := True\<rparr>, status = Some 401\<rparr>"
  let ?st1 = "on_reply i (Fail (Some 401)) st"
  note s1 = step_401 [OF assms(1-4)]
  have i1: "i < length (reqs ?st1)" and r1: "reqs ?st1 ! i = (Refreshing ?e, Caller)"
    using assms(1) by (simp_all add: s1)
  note s2 = step_refresh_fail [OF i1 r1, of s]
  have "run [Reply i (Fail (Some 401)), RefreshReply i (RefreshFail s)] st
      = on_refresh_reply i (RefreshFail s) ?st1"
    by (simp add: run_def)
  then show ?thesis
    using assms(1,5)
    by (simp add: s2) (simp add: s1 invoke_onLogout_def clearTokens_def holds_nothing_def)
qed

text \<open>
  The theorem at request 1 of \<open>two_pending\<close>, whose refresh dies of a network error.
\<close>

theorem failed_refresh_rejects_original_witness:
  "refreshToken two_pending \<noteq> [] \<and> onLogout two_pending = Some SetUserNull
   \<and> holds_nothing (run [Reply 1 (Fail (Some 401)), RefreshReply 1 (RefreshFail None)] two_pending)
   \<and> hook_calls (run [Reply 1 (Fail (Some 401)), RefreshReply 1 (RefreshFail None)] two_pending)
       = Suc (hook_calls two_pending)
   \<and> reqs (run [Reply 1 (Fail (Some 401)), RefreshReply 1 (RefreshFail None)] two_pending) ! 1
       = (Rejected \<lparr>cfg = \<lparr>url = ''/profile'', authorization = Some ''Bearer A1'', retry = True,
                           data = []\<rparr>, status = Some 401\<rparr>, Caller)"
proof -
  let ?c = "\<lparr>url = ''/profile'', authorization = Some ''Bearer A1'', retry = False, data = []\<rparr>"
  have a: "1 < length (reqs two_pending)" and b: "reqs two_pending ! 1 = (InFlight ?c, Caller)"
    and d: "refreshToken two_pending \<noteq> []" and e: "onLogout two_pending = Some SetUserNull"
    by (simp_all add: two_pending_def persisted_def model_defs)
  have c: "\<not> retry ?c" by simp
  from failed_refresh_rejects_original [OF a b c d e, of None] d e
  show ?thesis by simp
qed

subsection \<open>The token store\<close>

text \<open>
  C5. Let a sequence of \<^verbatim>\<open>setTokens\<close> and \<^verbatim>\<open>clearTokens\<close> calls run, every
  \<^verbatim>\<open>setTokens\<close> being given a pair of two non-empty tokens, from a store that holds a
  pair or nothing (or from any store when the sequence is not empty). Afterwards the
  store holds nothing or a pair, never one half alone, and what it holds is what the
  last operation wrote: both halves given to that one \<^verbatim>\<open>setTokens\<close> call, or
  nothing after \<^verbatim>\<open>clearTokens\<close>, in memory and in storage alike. Since every prefix of
  a sequence is a sequence, this holds after every operation.
\<close>

theorem token_store_pair_atomicity:
  assumes "\<forall>x \<in> set ops. proper x" and "ops = [] \<longrightarrow> paired st"
  shows "paired (exec ops st) \<and> (ops \<noteq> [] \<longrightarrow> written (last ops) (exec ops st))"
proof (cases ops rule: rev_cases)
  case Nil
  with assms show ?thesis by (simp add: exec_def)
next
  case (snoc ys y)
  with assms have "proper y" by simp
  with snoc show ?thesis
    by (simp add: exec_snoc written_apply_op paired_apply_op)
qed

text \<open>
  The theorem at a set, a clear and a second set, run from a store that was loaded
  with an access token alone.
\<close>

theorem token_store_pair_atomicity_witness:
  "paired (exec [Set ''A1'' ''R1'', Clear, Set ''A2'' ''R2''] (load (Some ''A0'') None (None, None)))
   \<and> holds_pair ''A2'' ''R2''
       (exec [Set ''A1'' ''R1'', Clear, Set ''A2'' ''R2''] (load (Some ''A0'') None (None, None)))"
  using token_store_pair_atomicity
    [of "[Set ''A1'' ''R1'', Clear, Set ''A2'' ''R2'']" "load (Some ''A0'') None (None, None)"]
  by simp

subsection \<open>Statuses other than 401\<close>

text \<open>
  C6. For a failure whose status is not 401 (or that has no response at all) the
  response handler returns the rejection of that same error and leaves the state as it
  is. For a page request this is all the step does: the request is rejected with the
  error, nothing is sent (no refresh, no resend), and the tokens, the storage and the
  logout handler's count are unchanged.
\<close>

theorem only_401_triggers_refresh:
  assumes "s \<noteq> Some 401" and "i < length (reqs st)" and "reqs st ! i = (InFlight c, Caller)"
  shows "response_rejected \<lparr>cfg = c, status = s\<rparr> st = (Reject \<lparr>cfg = c, status = s\<rparr>, st)
       \<and> step (Reply i (Fail s)) st
           = st\<lparr>reqs := (reqs st)[i := (Rejected \<lparr>cfg = c, status = s\<rparr>, Caller)]\<rparr>"
  using assms by (simp add: response_rejected_def on_reply_def)

text \<open>The theorem at request 1 of \<open>two_pending\<close>, answered with status 500.\<close>

theorem only_401_triggers_refresh_witness:
  "Some (500::nat) \<noteq> Some 401
   \<and> step (Reply 1 (Fail (Some 500))) two_pending
     = two_pending\<lparr>reqs := (reqs two_pending)
         [1 := (Rejected \<lparr>cfg = \<lparr>url = ''/profile'', authorization = Some ''Bearer A1'',
                                  retry = False, data = []\<rparr>, status = Some 500\<rparr>, Caller)]\<rparr>"
proof -
  let ?c = "\<lparr>url = ''/profile'', authorization = Some ''Bearer A1'', retry = False, data = []\<rparr>"
  have a: "Some (500::nat) \<noteq> Some 401" by simp
  have b: "1 < length (reqs two_pending)" and c: "reqs two_pending ! 1 = (InFlight ?c, Caller)"
    by (simp_all add: two_pending_def persisted_def model_defs)
  from only_401_triggers_refresh [OF a b c] a show ?thesis by blast
qed

subsection \<open>The request interceptor\<close>

text \<open>
  C7 (as amended). The request interceptor looks at the access token alone: it sets
  the Authorization header to the bearer form of the stored access token exactly when
  that token is not empty, whatever the refresh token is, and otherwise returns the
  config as it was built. It changes no other field. When the store holds a pair or
  nothing, a request built without the header is therefore sent with it exactly when
  both tokens are present.
\<close>

theorem request_use_attaches_iff_access:
  "(hasTokens st \<longrightarrow> authorization (request_use c st) = Some (bearer (fst (getTokens st))))
   \<and> (\<not> hasTokens st \<longrightarrow> request_use c st = c)
   \<and> url (request_use c st) = url c \<and> data (request_use c st) = data c
   \<and> retry (request_use c st) = retry c
   \<and> (paired st \<longrightarrow>
        (authorization (request_use (fresh u d) st) \<noteq> None
           \<longleftrightarrow> accessToken st \<noteq> [] \<and> refreshToken st \<noteq> []))"
  by (auto simp add: request_use_def hasTokens_def getTokens_def fresh_def paired_def holds_nothing_def)

text \<open>The theorem at the persisted pair \<open>(A1, R1)\<close> and at the empty store.\<close>

theorem request_use_attaches_iff_access_witness:
  "hasTokens persisted \<and> paired persisted
   \<and> authorization (request_use (fresh ''/profile'' []) persisted) = Some ''Bearer A1''
   \<and> (authorization (request_use (fresh ''/profile'' []) persisted) \<noteq> None
          \<longleftrightarrow> accessToken persisted \<noteq> [] \<and> refreshToken persisted \<noteq> [])
   \<and> \<not> hasTokens (clearTokens persisted)
   \<and> request_use (fresh ''/profile'' []) (clearTokens persisted) = fresh ''/profile'' []"
proof -
  have a: "hasTokens persisted" and b: "paired persisted" and c: "\<not> hasTokens (clearTokens persisted)"
    and d: "bearer (fst (getTokens persisted)) = ''Bearer A1''"
    and e: "accessToken persisted \<noteq> []" "refreshToken persisted \<noteq> []"
    by (simp_all add: persisted_def paired_def holds_pair_def model_defs)
  from request_use_attaches_iff_access [of persisted "fresh ''/profile'' []" "''/profile''" "[]"]
    request_use_attaches_iff_access [of "clearTokens persisted" "fresh ''/profile'' []" "''/profile''" "[]"]
    a b c d e
  show ?thesis by simp
qed

text \<open>
  A store loaded from a storage that has \<^verbatim>\<open>ja_access\<close> but no \<^verbatim>\<open>ja_refresh\<close> holds
  no pair, and the header is attached all the same.
\<close>

theorem request_use_counterexample:
  "getTokens (load (Some ''A1'') None (None, None)) = (''A1'', [])
   \<and> authorization (request_use (fresh ''/profile'' []) (load (Some ''A1'') None (None, None)))
       = Some ''Bearer A1''"
  by (simp add: model_defs)

subsection \<open>Logout\<close>

text \<open>
  C8 (as amended). When the request awaited by \<^verbatim>\<open>logout()\<close> settles, the token
  store is empty in memory and in storage and the user is null. From then on, as long
  as no event installs a pair (the bootstrap effect, a successful login or signup
  reply, or the successful reply to a refresh that was still in flight), the store
  stays empty and every request handed to the network carries no Authorization header.
\<close>

theorem logout_empties_store:
  assumes "ev = Reply i r \<or> ev = RefreshReply i rr"
    and "\<not> logout_done i st" and "logout_done i (step ev st)"
    and "\<forall>e\<in>set evs. \<not> installs e"
  shows "holds_nothing (step ev st) \<and> user (step ev st) = None
       \<and> holds_nothing (run evs (step ev st))
       \<and> unauthenticated (drop (length (sent (step ev st))) (sent (run evs (step ev st))))"
proof -
  note a = logout_settles_empty [OF assms(1-3)]
  then have "holds_nothing (step ev st)" by simp
  from quiet_run [OF this assms(4)] a show ?thesis by auto
qed

text \<open>
  The theorem at a logout from the persisted pair, followed by a page request that is
  answered 401 and by a login attempt.
\<close>

theorem logout_empties_store_witness:
  "\<not> logout_done 0 (run [Logout] persisted)
   \<and> logout_done 0 (step (Reply 0 (Ok [])) (run [Logout] persisted))
   \<and> holds_nothing (step (Reply 0 (Ok [])) (run [Logout] persisted))
   \<and> holds_nothing (run [Request ''/profile'' [], Reply 1 (Fail (Some 401)), Login ''ann'']
                        (step (Reply 0 (Ok [])) (run [Logout] persisted)))
   \<and> unauthenticated
       (drop (length (sent (step (Reply 0 (Ok [])) (run [Logout] persisted))))
          (sent (run [Request ''/profile'' [], Reply 1 (Fail (Some 401)), Login ''ann'']
                   (step (Reply 0 (Ok [])) (run [Logout] persisted)))))"
proof -
  let ?st = "run [Logout] persisted"
  have a: "Reply 0 (Ok []) = Reply 0 (Ok []) \<or> Reply 0 (Ok []) = RefreshReply 0 (RefreshFail None)"
    by simp
  have b: "\<not> logout_done 0 ?st" and c: "logout_done 0 (step (Reply 0 (Ok [])) ?st)"
    by (simp_all add: logout_done_def persisted_def model_defs)
  have d: "\<forall>e\<in>set [Request ''/profile'' [], Reply 1 (Fail (Some 401)), Login ''ann'']. \<not> installs e"
    by simp
  from logout_empties_store [OF a b c d] b c show ?thesis by blast
qed

text \<open>
  A refresh that is in flight when logout completes installs its pair afterwards: the
  store, empty after logout, holds \<open>(A2, R2)\<close> again, and the resent request carries
  the new bearer header, with no login in between.
\<close>

theorem late_refresh_after_logout_counterexample:
  "logout_done 1 (run [Request ''/profile'' [], Logout, Reply 0 (Fail (Some 401)), Reply 1 (Ok [])] persisted)
   \<and> holds_nothing (run [Request ''/profile'' [], Logout, Reply 0 (Fail (Some 401)), Reply 1 (Ok [])] persisted)
   \<and> getTokens (run [Request ''/profile'' [], Logout, Reply 0 (Fail (Some 401)), Reply 1 (Ok []),
                      RefreshReply 0 (RefreshOk ''A2'' ''R2'')] persisted) = (''A2'', ''R2'')
   \<and> last (sent (run [Request ''/profile'' [], Logout, Reply 0 (Fail (Some 401)), Reply 1 (Ok []),
                      RefreshReply 0 (RefreshOk ''A2'' ''R2'')] persisted))
       = (0, Api, \<lparr>url = ''/profile'', authorization = Some ''Bearer A2'', retry = True, data = []\<rparr>)"
  by (simp add: persisted_def logout_done_def holds_nothing_def model_defs)

subsection \<open>Bootstrap\<close>

text \<open>
  C9 (as amended). The bootstrap effect decides by \<^verbatim>\<open>hasTokens\<close>, which looks at
  the access token alone. When the module loads with no persisted access token,
  whatever the persisted refresh token is, and the address carries no pair of OAuth
  tokens, the effect leaves the user null, ends loading at once, and hands nothing to
  the network: no request exists, in particular none to \<^verbatim>\<open>/auth/me\<close>.
\<close>

theorem bootstrap_without_tokens:
  assumes "or_empty a = []" and "or_empty (fst q) = [] \<or> or_empty (snd q) = []"
  shows "user (step Mount (load a r q)) = None \<and> \<not> loading (step Mount (load a r q))
       \<and> \<not> hasTokens (step Mount (load a r q))
       \<and> sent (step Mount (load a r q)) = [] \<and> reqs (step Mount (load a r q)) = []"
  using assms
  by (auto simp add: mount_def ingest_def load_def setLogoutHandler_def hasTokens_def or_empty_def
      split: option.splits prod.splits)

text \<open>The theorem at an empty storage and an address without parameters.\<close>

theorem bootstrap_without_tokens_witness:
  "or_empty None = []
   \<and> user (step Mount (load None None (None, None))) = None
   \<and> \<not> loading (step Mount (load None None (None, None)))
   \<and> sent (step Mount (load None None (None, None))) = []"
proof -
  have a: "or_empty None = []" by (simp add: or_empty_def)
  have b: "or_empty (fst (None, None)) = [] \<or> or_empty (snd (None, None)) = []"
    by (simp add: or_empty_def)
  from bootstrap_without_tokens [OF a b, of None] a show ?thesis by blast
qed

text \<open>
  A storage that has \<^verbatim>\<open>ja_access\<close> but no \<^verbatim>\<open>ja_refresh\<close> persists no pair, and
  the address delivers no tokens; the effect still calls \<^verbatim>\<open>/auth/me\<close> with the
  bearer header and loading stays true until the reply.
\<close>

theorem bootstrap_access_only_counterexample:
  "ja_refresh (load (Some ''A1'') None (None, None)) = None
   \<and> \<not> paired (load (Some ''A1'') None (None, None))
   \<and> search (load (Some ''A1'') None (None, None)) = (None, None)
   \<and> sent (step Mount (load (Some ''A1'') None (None, None)))
       = [(0, Api, \<lparr>url = ''/auth/me'', authorization = Some ''Bearer A1'', retry = False, data = []\<rparr>)]
   \<and> loading (step Mount (load (Some ''A1'') None (None, None)))"
  by (simp add: paired_def holds_nothing_def holds_pair_def model_defs)

subsection \<open>The bare client\<close>

text \<open>
  C10. The refresh is posted through the bare client: the config handed to the network
  is the one built for the post, with the stored refresh token as its body and no
  Authorization header, whatever access token the store holds. A failure of the
  refresh, 401 included, sends nothing further and leaves the request rejected with
  its own failure, so no refresh is started from a refresh. Login and signup are
  posted the same way. In every reachable state no call made through the bare client
  carries an Authorization header, and no request has more than one refresh post.
\<close>

theorem refresh_bypasses_interceptors:
  assumes "i < length (reqs st)" and "reqs st ! i = (InFlight c, k)" and "\<not> retry c"
    and "refreshToken st \<noteq> []"
  shows "sent (step (Reply i (Fail (Some 401))) st)
           = sent st @ [(i, Bare, \<lparr>url = ''/auth/refresh'', authorization = None, retry = False,
                                   data = refreshToken st\<rparr>)]
       \<and> sent (run [Reply i (Fail (Some 401)), RefreshReply i (RefreshFail s)] st)
           = sent (step (Reply i (Fail (Some 401))) st)
       \<and> fst (reqs (run [Reply i (Fail (Some 401)), RefreshReply i (RefreshFail s)] st) ! i)
           = Rejected \<lparr>cfg = c\<lparr>retry := True\<rparr>, status = Some 401\<rparr>
       \<and> sent (step (Login d) st) = sent st @ [(length (reqs st), Bare, fresh ''/auth/login'' d)]
       \<and> sent (step (Signup d) st) = sent st @ [(length (reqs st), Bare, fresh ''/auth/signup'' d)]
       \<and> bare_unauthenticated (sent (run evs (load a r q)))
       \<and> refreshes n (run evs (load a r q)) \<le> 1"
proof -
  let ?e = "\<lparr>cfg = c\<lparr>retry := True\<rparr>, status = Some 401\<rparr>"
  let ?st1 = "on_reply i (Fail (Some 401)) st"
  note s1 = step_401 [OF assms]
  have i1: "i < length (reqs ?st1)" and r1: "reqs ?st1 ! i = (Refreshing ?e, k)"
    using assms(1) by (simp_all add: s1)
  note s2 = step_refresh_fail [OF i1 r1, of s]
  have two: "run [Reply i (Fail (Some 401)), RefreshReply i (RefreshFail s)] st
      = on_refresh_reply i (RefreshFail s) ?st1"
    by (simp add: run_def)
  have a: "sent (step (Reply i (Fail (Some 401))) st)
           = sent st @ [(i, Bare, \<lparr>url = ''/auth/refresh'', authorization = None, retry = False,
                                   data = refreshToken st\<rparr>)]"
    by (simp add: s1 fresh_def)
  have b: "sent (run [Reply i (Fail (Some 401)), RefreshReply i (RefreshFail s)] st)
           = sent (step (Reply i (Fail (Some 401))) st)"
    unfolding two by (simp add: s2)
  have c: "fst (reqs (run [Reply i (Fail (Some 401)), RefreshReply i (RefreshFail s)] st) ! i) = Rejected ?e"
    unfolding two using i1 by (simp add: s2)
  have d: "sent (step (Login d) st) = sent st @ [(length (reqs st), Bare, fresh ''/auth/login'' d)]"
    "sent (step (Signup d) st) = sent st @ [(length (reqs st), Bare, fresh ''/auth/signup'' d)]"
    by (simp_all add: login_def signup_def bare_request_def Let_def)
  have "bare_unauthenticated (sent (load a r q))"
    by (simp add: load_def bare_unauthenticated_def)
  then have e: "bare_unauthenticated (sent (run evs (load a r q)))" by (rule run_sent_bare)
  have f: "refreshes n (run evs (load a r q)) \<le> 1"
    using inv_bounds [OF inv_run [OF inv_load]] by simp
  from a b c d e f show ?thesis by blast
qed

text \<open>
  The theorem at request 2 of \<open>two_pending\<close>, where the store holds the access token
  \<open>A1\<close>, with a refresh answered 401.
\<close>

theorem refresh_bypasses_interceptors_witness:
  "accessToken two_pending = ''A1''
   \<and> sent (step (Reply 2 (Fail (Some 401))) two_pending)
       = sent two_pending @ [(2, Bare, \<lparr>url = ''/auth/refresh'', authorization = None, retry = False,
                                        data = ''R1''\<rparr>)]
   \<and> sent (run [Reply 2 (Fail (Some 401)), RefreshReply 2 (RefreshFail (Some 401))] two_pending)
       = sent (step (Reply 2 (Fail (Some 401))) two_pending)"
proof -
  let ?c = "\<lparr>url = ''/threads'', authorization = Some ''Bearer A1'', retry = False, data = []\<rparr>"
  have a: "2 < length (reqs two_pending)" and b: "reqs two_pending ! 2 = (InFlight ?c, Caller)"
    and d: "refreshToken two_pending \<noteq> []" and e: "accessToken two_pending = ''A1''"
    and f: "refreshToken two_pending = ''R1''"
    by (simp_all add: two_pending_def persisted_def model_defs)
  have c: "\<not> retry ?c" by simp
  from refresh_bypasses_interceptors [OF a b c d, of "Some 401"] e f
  show ?thesis by simp
qed

end
